theory Spec2Isabelle
  imports Main "HOL-Library.Word" "HOL-Library.Sublist"
begin

section \<open>File renamer: a shallow embedding of \<open>file_renamer.py\<close>\<close>

text \<open>
  The program prefixes a file's name with its creation time (\<open>yymmdd_hhmmss_\<close>) and moves
  or copies it into a destination directory, choosing a counter-suffixed name when the
  plain one is taken. The functions below follow \<open>file_renamer.py\<close> one to one; the
  library calls it makes (\<open>pathlib\<close>, \<open>os\<close>, \<open>shutil\<close>, \<open>str\<close>) are modelled on an
  explicit file-system state.

  Names are strings of one-byte characters: \<open>str.lower\<close> is modelled on the ASCII letters
  and leaves every other character as it is.
\<close>

subsection \<open>Strings: \<open>str.lower\<close>, \<open>str.rfind\<close>, \<open>str.rsplit\<close>, number formatting\<close>

definition is_upper :: "char \<Rightarrow> bool" where
  "is_upper c = (65 \<le> (of_char c :: nat) \<and> (of_char c :: nat) \<le> 90)"

definition lower_char :: "char \<Rightarrow> char" where
  "lower_char c = (if is_upper c then char_of ((of_char c :: nat) + 32) else c)"

text \<open>\<open>s.lower()\<close>\<close>

definition lower :: "string \<Rightarrow> string" where
  "lower s = map lower_char s"

text \<open>\<open>s.rfind(c)\<close>: the index of the last occurrence of \<open>c\<close>; \<open>None\<close> stands for \<open>-1\<close>.\<close>

fun rfind :: "string \<Rightarrow> char \<Rightarrow> nat option" where
  "rfind [] c = None"
| "rfind (x # xs) c =
     (case rfind xs c of
        Some i \<Rightarrow> Some (Suc i)
      | None \<Rightarrow> if x = c then Some 0 else None)"

text \<open>\<open>s.rsplit(c, 1)\<close>: split once, at the last occurrence of \<open>c\<close>.\<close>

definition rsplit1 :: "string \<Rightarrow> char \<Rightarrow> string list" where
  "rsplit1 s c =
     (case rfind s c of
        None \<Rightarrow> [s]
      | Some i \<Rightarrow> [take i s, drop (Suc i) s])"

definition digit_char :: "nat \<Rightarrow> char" where
  "digit_char d = ''0123456789'' ! d"

text \<open>\<open>str(n)\<close> for a non-negative integer: its decimal digits.\<close>

fun dec :: "nat \<Rightarrow> string" where
  "dec n = (if n < 10 then [digit_char n] else dec (n div 10) @ [digit_char (n mod 10)])"

declare dec.simps [simp del]

text \<open>
  The format specification \<open>0wd\<close> (\<open>f"{n:03d}"\<close>, and the two-digit fields of
  \<open>strftime\<close>): the decimal digits, filled with zeros on the left up to width \<open>w\<close>. A number
  with more than \<open>w\<close> digits is printed in full.
\<close>

definition zfill :: "nat \<Rightarrow> nat \<Rightarrow> string" where
  "zfill w n = replicate (w - length (dec n)) (CHR ''0'') @ dec n"

text \<open>Reading a digit string back; used to show that the formats are one to one.\<close>

definition digit_val :: "char \<Rightarrow> nat" where
  "digit_val c = length (takeWhile (\<lambda>x. x \<noteq> c) ''0123456789'')"

definition decval :: "string \<Rightarrow> nat" where
  "decval s = foldl (\<lambda>a c. 10 * a + digit_val c) 0 s"

subsection \<open>Paths\<close>

text \<open>
  A path is the list of its components, from the root of the tree the program works in.
  \<open>Path.name\<close> is the last component (empty for the empty path); \<open>d / n\<close> is \<open>d @ [n]\<close>.
\<close>

type_synonym path = "string list"

definition path_name :: "path \<Rightarrow> string" where
  "path_name p = (if p = [] then [] else last p)"

text \<open>
  \<open>Path.suffix\<close>, as \<open>pathlib\<close> computes it from the name: the part from the last dot on,
  unless that dot is the first or the last character of the name.
\<close>

definition path_suffix :: "path \<Rightarrow> string" where
  "path_suffix p =
     (let name = path_name p in
      case rfind name (CHR ''.'') of
        None \<Rightarrow> []
      | Some i \<Rightarrow> if 0 < i \<and> i < length name - 1 then drop i name else [])"

subsection \<open>Creation times and the prefix\<close>

text \<open>
  A \<open>datetime\<close> value, as \<open>datetime.fromtimestamp\<close> returns it (local time; the fraction
  of a second plays no part in the program).
\<close>

record datetime =
  year :: nat
  month :: nat
  day :: nat
  hour :: nat
  minute :: nat
  second :: nat

text \<open>The ranges every \<open>datetime\<close> of Python lies in.\<close>

definition valid_datetime :: "datetime \<Rightarrow> bool" where
  "valid_datetime dt =
     (1 \<le> year dt \<and> year dt \<le> 9999 \<and> 1 \<le> month dt \<and> month dt \<le> 12 \<and>
      1 \<le> day dt \<and> day dt \<le> 31 \<and> hour dt < 24 \<and> minute dt < 60 \<and> second dt < 60)"

text \<open>\<open>format_datetime_prefix\<close>: \<open>dt.strftime("%y%m%d_%H%M%S_")\<close>.\<close>

definition format_datetime_prefix :: "datetime \<Rightarrow> string" where
  "format_datetime_prefix dt =
     zfill 2 (year dt mod 100) @ zfill 2 (month dt) @ zfill 2 (day dt) @ ''_'' @
     zfill 2 (hour dt) @ zfill 2 (minute dt) @ zfill 2 (second dt) @ ''_''"

subsection \<open>The name tried after a conflict\<close>

text \<open>
  The body of the \<open>while\<close> loop of \<open>rename_file\<close>: the name built from the counter.
\<close>

definition conflict_name :: "string \<Rightarrow> string \<Rightarrow> nat \<Rightarrow> string" where
  "conflict_name date_prefix original_name counter =
     (case rsplit1 original_name (CHR ''.'') of
        [base_name, extension] \<Rightarrow>
          date_prefix @ base_name @ ''_'' @ zfill 3 counter @ ''.'' @ extension
      | _ \<Rightarrow> date_prefix @ original_name @ ''_'' @ zfill 3 counter)"

type_synonym byte = "8 word"

datatype node = File (content: "byte list") (created: datetime) | Dir (created: datetime)

record world =
  nodes :: "path \<rightharpoonup> node"
  clock :: datetime

datatype py_error =
  FileExistsError | FileNotFoundError | NotADirectoryError | IsADirectoryError | ShutilError

definition path_exists :: "world \<Rightarrow> path \<Rightarrow> bool" where
  "path_exists s p = (nodes s p \<noteq> None)"

definition is_file :: "world \<Rightarrow> path \<Rightarrow> bool" where
  "is_file s p = (case nodes s p of Some (File c t) \<Rightarrow> True | _ \<Rightarrow> False)"

definition is_dir :: "world \<Rightarrow> path \<Rightarrow> bool" where
  "is_dir s p = (case nodes s p of Some (Dir t) \<Rightarrow> True | _ \<Rightarrow> False)"

definition os_mkdir :: "world \<Rightarrow> path \<Rightarrow> py_error + world" where
  "os_mkdir s p =
     (if p = [] then
        (case nodes s p of None \<Rightarrow> Inl FileNotFoundError | Some n \<Rightarrow> Inl FileExistsError)
      else
        (case nodes s (butlast p) of
           None \<Rightarrow> Inl FileNotFoundError
         | Some (File c t) \<Rightarrow> Inl NotADirectoryError
         | Some (Dir t) \<Rightarrow>
             (case nodes s p of
                Some n \<Rightarrow> Inl FileExistsError
              | None \<Rightarrow> Inr (s\<lparr>nodes := (nodes s)(p \<mapsto> Dir (clock s))\<rparr>))))"

definition mkdir_exist_ok :: "world \<Rightarrow> path \<Rightarrow> py_error + world" where
  "mkdir_exist_ok s p =
     (case os_mkdir s p of
        Inr s' \<Rightarrow> Inr s'
      | Inl FileNotFoundError \<Rightarrow> Inl FileNotFoundError
      | Inl e \<Rightarrow> if is_dir s p then Inr s else Inl e)"

function mkdir_parents :: "world \<Rightarrow> path \<Rightarrow> py_error + world" where
  "mkdir_parents s p =
     (case os_mkdir s p of
        Inr s' \<Rightarrow> Inr s'
      | Inl FileNotFoundError \<Rightarrow>
          if p = [] then Inl FileNotFoundError
          else (case mkdir_parents s (butlast p) of
                  Inl e \<Rightarrow> Inl e
                | Inr s' \<Rightarrow> mkdir_exist_ok s' p)
      | Inl e \<Rightarrow> if is_dir s p then Inr s else Inl e)"
  by pat_completeness auto
termination
  by (relation "measure (\<lambda>(s, p). length p)") auto

declare mkdir_parents.simps [simp del]

definition get_file_creation_time :: "world \<Rightarrow> path \<Rightarrow> datetime option" where
  "get_file_creation_time s file_path =
     (case nodes s file_path of
        None \<Rightarrow> None
      | Some n \<Rightarrow> Some (created n))"

definition copy2 :: "world \<Rightarrow> path \<Rightarrow> path \<Rightarrow> py_error + world" where
  "copy2 s src dst =
     (case nodes s src of
        None \<Rightarrow> Inl FileNotFoundError
      | Some (Dir t) \<Rightarrow> Inl IsADirectoryError
      | Some (File c t) \<Rightarrow> Inr (s\<lparr>nodes := (nodes s)(dst \<mapsto> File c (clock s))\<rparr>))"

definition move_tree :: "(path \<rightharpoonup> node) \<Rightarrow> path \<Rightarrow> path \<Rightarrow> (path \<rightharpoonup> node)" where
  "move_tree m src dst =
     (\<lambda>q. if prefix dst q then m (src @ drop (length dst) q)
          else if prefix src q then None
          else m q)"

definition move :: "world \<Rightarrow> path \<Rightarrow> path \<Rightarrow> py_error + world" where
  "move s src dst =
     (case nodes s src of
        None \<Rightarrow> Inl FileNotFoundError
      | Some (File c t) \<Rightarrow> Inr (s\<lparr>nodes := (nodes s)(src := None, dst \<mapsto> File c t)\<rparr>)
      | Some (Dir t) \<Rightarrow>
          if prefix src dst then Inl ShutilError
          else Inr (s\<lparr>nodes := move_tree (nodes s) src dst\<rparr>))"

datatype failure = CreationTimeError | Exception py_error

datatype outcome = Success string | Failure failure

partial_function (option) rename_file_loop ::
  "world \<Rightarrow> path \<Rightarrow> string \<Rightarrow> string \<Rightarrow> string \<Rightarrow> nat \<Rightarrow> string option" where
  "rename_file_loop s destination_dir date_prefix original_name new_filename counter =
     (if path_exists s (destination_dir @ [new_filename])
      then rename_file_loop s destination_dir date_prefix original_name
             (conflict_name date_prefix original_name counter) (counter + 1)
      else Some new_filename)"

definition rename_file :: "world \<Rightarrow> path \<Rightarrow> path \<Rightarrow> bool \<Rightarrow> (world \<times> outcome) option" where
  "rename_file s source_path destination_dir copy_mode =
     (case mkdir_parents s destination_dir of
        Inl e \<Rightarrow> Some (s, Failure (Exception e))
      | Inr s1 \<Rightarrow>
          (case get_file_creation_time s1 source_path of
             None \<Rightarrow> Some (s1, Failure CreationTimeError)
           | Some creation_time \<Rightarrow>
               (let date_prefix = format_datetime_prefix creation_time;
                    original_name = path_name source_path
                in case rename_file_loop s1 destination_dir date_prefix original_name
                          (date_prefix @ original_name) 1 of
                     None \<Rightarrow> None
                   | Some new_filename \<Rightarrow>
                       (case (if copy_mode
                              then copy2 s1 source_path (destination_dir @ [new_filename])
                              else move s1 source_path (destination_dir @ [new_filename])) of
                          Inl e \<Rightarrow> Some (s1, Failure (Exception e))
                        | Inr s2 \<Rightarrow> Some (s2, Success new_filename)))))"

fun process_files ::
  "world \<Rightarrow> path list \<Rightarrow> path \<Rightarrow> bool \<Rightarrow> nat \<Rightarrow> nat \<Rightarrow> (world \<times> nat \<times> nat) option" where
  "process_files s [] output_path copy_mode success_count error_count =
     Some (s, success_count, error_count)"
| "process_files s (file_path # files) output_path copy_mode success_count error_count =
     (case rename_file s file_path output_path copy_mode of
        None \<Rightarrow> None
      | Some (s', Success new_name) \<Rightarrow>
          process_files s' files output_path copy_mode (success_count + 1) error_count
      | Some (s', Failure error) \<Rightarrow>
          process_files s' files output_path copy_mode success_count (error_count + 1))"

definition select_files :: "world \<Rightarrow> string list \<Rightarrow> path \<Rightarrow> string list option \<Rightarrow> path list" where
  "select_files s entries input_path file_extensions =
     (let files = filter (is_file s) (map (\<lambda>n. input_path @ [n]) entries)
      in case file_extensions of
           None \<Rightarrow> files
         | Some exts \<Rightarrow>
             if exts = [] then files
             else filter (\<lambda>f. lower (path_suffix f) \<in> set (map lower exts)) files)"

datatype batch = InputMissing | NoFiles | Processed nat nat

definition process_directory ::
  "world \<Rightarrow> string list \<Rightarrow> path \<Rightarrow> path \<Rightarrow> bool \<Rightarrow> string list option \<Rightarrow>
     (py_error + world \<times> batch) option" where
  "process_directory s entries input_dir output_dir copy_mode file_extensions =
     (if \<not> path_exists s input_dir then Some (Inr (s, InputMissing))
      else if \<not> is_dir s input_dir then Some (Inl NotADirectoryError)
      else
        (let files = select_files s entries input_dir file_extensions
         in if files = [] then Some (Inr (s, NoFiles))
            else (case process_files s files output_dir copy_mode 0 0 of
                    None \<Rightarrow> None
                  | Some (s', success_count, error_count) \<Rightarrow>
                      Some (Inr (s', Processed success_count error_count)))))"


subsection \<open>The log file\<close>

text \<open>
  \<open>setup_logging\<close> gives the root logger two handlers. The \<open>StreamHandler\<close> writes to the
  standard error stream, which is no file of the tree. The \<open>FileHandler\<close> opens
  \<open>file_renamer.log\<close>, a name relative to the working directory \<open>cwd\<close>, for appending
  at the moment it is made: a file that is absent is created empty, a directory of that name
  makes the call raise. Every later \<open>logging\<close> call appends one line to the file that was
  opened. The program moves files, the log file possibly among them, so the path at which
  the opened file is found is carried along with the file system.

  The bytes of a line (time stamp, level name, the message with its values put in, the line
  end, in the encoding of the platform) are given by a formatter, a parameter of the model.
\<close>

datatype level = INFO | WARNING | ERROR

datatype message =
    StartingProcess
  | FileMissing path
  | FileProcessed string
  | FileFailed failure
  | ProcessCompleted
  | InputDirMissing path
  | NoFilesFound
  | FilesFound nat
  | ItemFailed string failure
  | BatchComplete nat nat
  | CopiedTo string string
  | MovedTo string string
  | CreationTimeUnknown path
  | ProcessingError path py_error

type_synonym formatter = "level \<Rightarrow> message \<Rightarrow> byte list"




text \<open>One \<open>logging\<close> call: the line is appended to the opened file.\<close>

fun emit :: "formatter \<Rightarrow> world \<times> path \<Rightarrow> level \<Rightarrow> message \<Rightarrow> world \<times> path" where
  "emit fmt (s, h) l m =
     (case nodes s h of
        Some (File c t) \<Rightarrow> (s\<lparr>nodes := (nodes s)(h \<mapsto> File (c @ fmt l m) t)\<rparr>, h)
      | _ \<Rightarrow> (s, h))"





subsection \<open>The command line\<close>



fun rename_each ::
  "world \<Rightarrow> path list \<Rightarrow> path \<Rightarrow> bool \<Rightarrow> (world \<times> outcome list) option" where
  "rename_each s [] destination_dir copy_mode = Some (s, [])"
| "rename_each s (source_path # rest) destination_dir copy_mode =
     (case rename_file s source_path destination_dir copy_mode of
        None \<Rightarrow> None
      | Some (s', r) \<Rightarrow>
          (case rename_each s' rest destination_dir copy_mode of
             None \<Rightarrow> None
           | Some (s'', rs) \<Rightarrow> Some (s'', r # rs)))"



subsection \<open>Specification-level notions\<close>

text \<open>A field of exactly two decimal digits.\<close>

definition two_digits :: "nat \<Rightarrow> string" where
  "two_digits n = [digit_char (n div 10), digit_char (n mod 10)]"



definition is_success :: "outcome \<Rightarrow> bool" where
  "is_success r = (case r of Success n \<Rightarrow> True | Failure e \<Rightarrow> False)"

text \<open>What \<open>mkdir\<close> may change: it only adds directories on the way to \<open>p\<close>.\<close>

definition grown :: "path \<Rightarrow> world \<Rightarrow> world \<Rightarrow> bool" where
  "grown p s s' \<longleftrightarrow>
     clock s' = clock s \<and>
     (\<forall>q. nodes s' q = nodes s q \<or>
          (nodes s q = None \<and> prefix q p \<and> nodes s' q = Some (Dir (clock s))))"

text \<open>
  The names that files with one original name and one creation time get in turn: the plain
  name first, then the names with the counter 1, 2, \<open>\<dots>\<close>
\<close>

definition nth_name :: "string \<Rightarrow> string \<Rightarrow> nat \<Rightarrow> string" where
  "nth_name date_prefix original_name i =
     (if i = 0 then date_prefix @ original_name
      else conflict_name date_prefix original_name i)"

subsection \<open>Example states\<close>

definition example_time :: datetime where
  "example_time = \<lparr>year = 2025, month = 8, day = 8, hour = 14, minute = 30, second = 22\<rparr>"

definition example_world :: world where
  "example_world =
     \<lparr>nodes = [[] \<mapsto> Dir example_time,
               [''in''] \<mapsto> Dir example_time,
               [''in'', ''report.pdf''] \<mapsto> File [1, 2, 3] example_time],
      clock = example_time\<rparr>"

definition crowded_world :: world where
  "crowded_world =
     \<lparr>nodes = [[] \<mapsto> Dir example_time,
               [''in''] \<mapsto> Dir example_time,
               [''in'', ''report.pdf''] \<mapsto> File [1, 2, 3] example_time,
               [''out''] \<mapsto> Dir example_time,
               [''out'', ''250808_143022_report.pdf''] \<mapsto> File [7] example_time,
               [''out'', ''250808_143022_report_001.pdf''] \<mapsto> File [8] example_time],
      clock = example_time\<rparr>"



definition listing_world :: world where
  "listing_world =
     \<lparr>nodes = [[] \<mapsto> Dir example_time,
               [''in''] \<mapsto> Dir example_time,
               [''in'', ''a.txt''] \<mapsto> File [1] example_time,
               [''in'', ''b.pdf''] \<mapsto> File [2] example_time,
               [''in'', ''c.TXT''] \<mapsto> File [3] example_time,
               [''in'', ''sub.txt''] \<mapsto> Dir example_time],
      clock = example_time\<rparr>"

definition listing_entries :: "string list" where
  "listing_entries = [''a.txt'', ''b.pdf'', ''c.TXT'', ''sub.txt'']"

definition twins_world :: world where
  "twins_world =
     \<lparr>nodes = [[] \<mapsto> Dir example_time,
               [''a''] \<mapsto> Dir example_time,
               [''a'', ''report.pdf''] \<mapsto> File [1] example_time,
               [''b''] \<mapsto> Dir example_time,
               [''b'', ''report.pdf''] \<mapsto> File [2] example_time,
               [''c''] \<mapsto> Dir example_time,
               [''c'', ''report.pdf''] \<mapsto> File [3] example_time],
      clock = example_time\<rparr>"

section \<open>Properties of the string functions\<close>

lemma digit_val_digit_char: "d < 10 \<Longrightarrow> digit_val (digit_char d) = d"
proof -
  assume "d < 10"
  then have "d \<in> {0,1,2,3,4,5,6,7,8,9}" by auto
  then show ?thesis
    by (auto simp: digit_val_def digit_char_def)
qed

lemma decval_snoc: "decval (s @ [c]) = 10 * decval s + digit_val c"
  by (simp add: decval_def)

lemma decval_dec: "decval (dec n) = n"
proof (induction n rule: dec.induct)
  case (1 n)
  show ?case
  proof (cases "n < 10")
    case True
    then show ?thesis
      by (subst dec.simps) (simp add: decval_def digit_val_digit_char)
  next
    case False
    then have "decval (dec (n div 10)) = n div 10" using 1 by simp
    with False show ?thesis
      by (subst dec.simps) (simp add: decval_snoc digit_val_digit_char)
  qed
qed

lemma decval_zeros: "decval (replicate k (CHR ''0'') @ s) = decval s"
proof -
  have "foldl (\<lambda>a c. 10 * a + digit_val c) 0 (replicate k (CHR ''0'')) = 0"
    by (induction k) (simp_all add: digit_val_def)
  then show ?thesis by (simp add: decval_def)
qed

lemma decval_zfill: "decval (zfill w n) = n"
  by (simp add: zfill_def decval_zeros decval_dec)

lemma zfill_inj: "zfill w m = zfill w n \<Longrightarrow> m = n"
  by (metis decval_zfill)

lemma length_dec_lt10: "n < 10 \<Longrightarrow> length (dec n) = 1"
  by (subst dec.simps) simp

lemma length_dec_lt100: "n < 100 \<Longrightarrow> length (dec n) \<le> 2"
  by (subst dec.simps) (simp add: length_dec_lt10)

lemma length_dec_lt1000: "n < 1000 \<Longrightarrow> length (dec n) \<le> 3"
proof -
  assume a: "n < 1000"
  show ?thesis
  proof (cases "n < 10")
    case True
    then show ?thesis by (simp add: length_dec_lt10)
  next
    case False
    have "n div 10 < 100" using a by simp
    then have "length (dec (n div 10)) \<le> 2" by (rule length_dec_lt100)
    with False show ?thesis by (subst dec.simps) simp
  qed
qed

lemma length_zfill: "length (dec n) \<le> w \<Longrightarrow> length (zfill w n) = w"
  by (simp add: zfill_def)

lemma length_zfill2: "n < 100 \<Longrightarrow> length (zfill 2 n) = 2"
  by (simp add: length_zfill length_dec_lt100)

lemma length_zfill3: "n < 1000 \<Longrightarrow> length (zfill 3 n) = 3"
  by (simp add: length_zfill length_dec_lt1000)

lemma rfind_None: "rfind s c = None \<longleftrightarrow> c \<notin> set s"
  by (induction s) (auto split: option.splits)

lemma rfind_Some:
  "rfind s c = Some i \<Longrightarrow>
     i < length s \<and> s ! i = c \<and> c \<notin> set (drop (Suc i) s)"
proof (induction s arbitrary: i)
  case Nil
  then show ?case by simp
next
  case (Cons x xs)
  show ?case
  proof (cases "rfind xs c")
    case None
    with Cons.prems have "x = c" "i = 0" by (auto split: if_splits)
    moreover from None have "c \<notin> set xs" by (simp add: rfind_None)
    ultimately show ?thesis by simp
  next
    case (Some j)
    with Cons.prems have i: "i = Suc j" by simp
    from Cons.IH [OF Some] show ?thesis by (simp add: i)
  qed
qed

lemma rfind_split:
  "rfind s c = Some i \<Longrightarrow> s = take i s @ [c] @ drop (Suc i) s"
proof -
  assume "rfind s c = Some i"
  then have "i < length s" "s ! i = c" by (simp_all add: rfind_Some)
  then show ?thesis by (metis append_Cons append_Nil id_take_nth_drop)
qed

lemma rfind_dot_first: "c \<notin> set xs \<Longrightarrow> rfind (c # xs) c = Some 0"
  by (simp add: iffD2 [OF rfind_None])

lemma conflict_name_no_dot:
  "CHR ''.'' \<notin> set nm \<Longrightarrow>
     conflict_name pre nm k = pre @ nm @ ''_'' @ zfill 3 k"
  by (simp add: conflict_name_def rsplit1_def iffD2 [OF rfind_None])

lemma conflict_name_dot:
  "rfind nm (CHR ''.'') = Some i \<Longrightarrow>
     conflict_name pre nm k =
       pre @ take i nm @ ''_'' @ zfill 3 k @ ''.'' @ drop (Suc i) nm"
  by (simp add: conflict_name_def rsplit1_def)

lemma conflict_name_inj:
  "conflict_name pre nm j = conflict_name pre nm k \<Longrightarrow> j = k"
proof (cases "rfind nm (CHR ''.'')")
  case None
  assume "conflict_name pre nm j = conflict_name pre nm k"
  with None show ?thesis
    by (simp add: conflict_name_def rsplit1_def zfill_inj)
next
  case (Some i)
  assume "conflict_name pre nm j = conflict_name pre nm k"
  with Some have "zfill 3 j @ ''.'' @ drop (Suc i) nm = zfill 3 k @ ''.'' @ drop (Suc i) nm"
    by (simp add: conflict_name_dot)
  then have "zfill 3 j = zfill 3 k" by simp
  then show ?thesis by (rule zfill_inj)
qed

lemma length_format_datetime_prefix:
  "valid_datetime dt \<Longrightarrow> length (format_datetime_prefix dt) = 14"
  by (simp add: valid_datetime_def format_datetime_prefix_def length_zfill2)

lemma format_datetime_prefix_not_Nil: "format_datetime_prefix dt \<noteq> []"
  by (simp add: format_datetime_prefix_def)

lemma conflict_name_longer: "length nm < length (conflict_name pre nm k)"
proof (cases "rfind nm (CHR ''.'')")
  case None
  then show ?thesis by (simp add: conflict_name_def rsplit1_def)
next
  case (Some i)
  then have "i < length nm" by (simp add: rfind_Some)
  with Some show ?thesis by (simp add: conflict_name_dot)
qed

section \<open>Claims about names\<close>

text \<open>
  C9. A name that begins with a dot and has no other dot (\<open>.bashrc\<close>) is split at that dot:
  the base name is empty and the rest is the extension, so the name tried after a conflict
  is the prefix, an underscore, the counter, and the dotted extension
  (\<open>250808_143022__001.bashrc\<close>), and not the whole name followed by \<open>_NNN\<close>.
\<close>

theorem conflict_name_dotfile:
  "CHR ''.'' \<notin> set ext \<Longrightarrow>
     rsplit1 (CHR ''.'' # ext) (CHR ''.'') = [[], ext] \<and>
     conflict_name pre (CHR ''.'' # ext) k = pre @ ''_'' @ zfill 3 k @ ''.'' @ ext \<and>
     conflict_name pre (CHR ''.'' # ext) k \<noteq> pre @ (CHR ''.'' # ext) @ ''_'' @ zfill 3 k"
  by (simp add: conflict_name_def rsplit1_def rfind_dot_first del: rfind.simps)

theorem conflict_name_dotfile_witness:
  "CHR ''.'' \<notin> set ''bashrc'' \<and>
   conflict_name ''250808_143022_'' ''.bashrc'' 1 = ''250808_143022__001.bashrc''"
  using conflict_name_dotfile [of "''bashrc''" "''250808_143022_''" 1]
  by (simp add: zfill_def dec.simps digit_char_def eval_nat_numeral)

lemma loop_stop:
  "\<not> path_exists s (d @ [fn]) \<Longrightarrow> rename_file_loop s d pre nm fn k = Some fn"
  by (subst rename_file_loop.simps) simp

lemma loop_step:
  "path_exists s (d @ [fn]) \<Longrightarrow>
     rename_file_loop s d pre nm fn k =
       rename_file_loop s d pre nm (conflict_name pre nm k) (k + 1)"
  by (subst rename_file_loop.simps) simp

lemma loop_free:
  assumes "rename_file_loop s d pre nm fn k = Some n"
  shows "\<not> path_exists s (d @ [n])"
  by (rule rename_file_loop.raw_induct
        [where P = "\<lambda>s d pre nm fn k n. \<not> path_exists s (d @ [n])", OF _ assms])
     (simp split: if_splits)

lemma loop_result:
  assumes "rename_file_loop s d pre nm fn k = Some n"
  shows "n = fn \<or> (\<exists>j\<ge>k. n = conflict_name pre nm j)"
proof (rule rename_file_loop.raw_induct
        [where P = "\<lambda>s d pre nm fn k n. n = fn \<or> (\<exists>j\<ge>k. n = conflict_name pre nm j)",
         OF _ assms])
  fix loop :: "world \<Rightarrow> path \<Rightarrow> string \<Rightarrow> string \<Rightarrow> string \<Rightarrow> nat \<Rightarrow> string option"
  fix s d pre nm fn k n
  assume IH: "\<And>s d pre nm fn k n. loop s d pre nm fn k = Some n \<Longrightarrow>
                 n = fn \<or> (\<exists>j\<ge>k. n = conflict_name pre nm j)"
  assume eq: "(if path_exists s (d @ [fn])
               then loop s d pre nm (conflict_name pre nm k) (k + 1)
               else Some fn) = Some n"
  show "n = fn \<or> (\<exists>j\<ge>k. n = conflict_name pre nm j)"
  proof (cases "path_exists s (d @ [fn])")
    case True
    with eq have "loop s d pre nm (conflict_name pre nm k) (k + 1) = Some n" by simp
    from IH [OF this] have "n = conflict_name pre nm k \<or> (\<exists>j\<ge>k + 1. n = conflict_name pre nm j)" .
    then show ?thesis
    proof
      assume "n = conflict_name pre nm k"
      then show ?thesis by blast
    next
      assume "\<exists>j\<ge>k + 1. n = conflict_name pre nm j"
      then obtain j where "k + 1 \<le> j" "n = conflict_name pre nm j" by blast
      then have "k \<le> j \<and> n = conflict_name pre nm j" by simp
      then show ?thesis by blast
    qed
  next
    case False
    with eq show ?thesis by simp
  qed
qed

lemma loop_reaches:
  "\<not> path_exists s (d @ [conflict_name pre nm m]) \<Longrightarrow>
   (\<forall>j. k \<le> j \<and> j < m \<longrightarrow> path_exists s (d @ [conflict_name pre nm j])) \<Longrightarrow>
   k \<le> m \<Longrightarrow> path_exists s (d @ [fn]) \<Longrightarrow>
     rename_file_loop s d pre nm fn k = Some (conflict_name pre nm m)"
proof (induction "m - k" arbitrary: k fn)
  case 0
  then have km: "k = m" by simp
  have "rename_file_loop s d pre nm fn k =
          rename_file_loop s d pre nm (conflict_name pre nm k) (k + 1)"
    using "0.prems"(4) by (rule loop_step)
  also have "\<dots> = Some (conflict_name pre nm k)"
    using "0.prems"(1) unfolding km by (rule loop_stop)
  finally show ?case unfolding km .
next
  case (Suc x)
  from Suc.hyps(2) have km: "k < m" by simp
  from Suc.prems(2) km have ex: "path_exists s (d @ [conflict_name pre nm k])" by blast
  have x: "x = m - (k + 1)" using Suc.hyps(2) by simp
  have all: "\<forall>j. k + 1 \<le> j \<and> j < m \<longrightarrow> path_exists s (d @ [conflict_name pre nm j])"
    using Suc.prems(2) by simp
  have le: "k + 1 \<le> m" using km by simp
  have "rename_file_loop s d pre nm fn k =
          rename_file_loop s d pre nm (conflict_name pre nm k) (k + 1)"
    using Suc.prems(4) by (rule loop_step)
  also have "\<dots> = Some (conflict_name pre nm m)"
    using x Suc.prems(1) all le ex by (rule Suc.hyps(1))
  finally show ?case .
qed

lemma free_counter_exists:
  assumes fin: "finite {n. path_exists s (d @ [n])}"
  shows "\<exists>m\<ge>k. \<not> path_exists s (d @ [conflict_name pre nm m])"
proof (rule ccontr)
  assume "\<not> ?thesis"
  then have all: "\<forall>m\<ge>k. path_exists s (d @ [conflict_name pre nm m])" by simp
  then have "conflict_name pre nm ` {k..} \<subseteq> {n. path_exists s (d @ [n])}" by auto
  then have "finite (conflict_name pre nm ` {k..})" using fin by (rule finite_subset)
  moreover have "inj_on (conflict_name pre nm) {k..}"
    by (rule inj_onI) (rule conflict_name_inj)
  ultimately have "finite {k..}" by (rule finite_imageD)
  then show False by (simp add: infinite_Ici)
qed

lemma loop_terminates:
  assumes fin: "finite {n. path_exists s (d @ [n])}"
  shows "\<exists>n. rename_file_loop s d pre nm fn k = Some n"
proof (cases "path_exists s (d @ [fn])")
  case False
  then have "rename_file_loop s d pre nm fn k = Some fn" by (rule loop_stop)
  then show ?thesis ..
next
  case True
  let ?Q = "\<lambda>m. k \<le> m \<and> \<not> path_exists s (d @ [conflict_name pre nm m])"
  from free_counter_exists [OF fin, of k pre nm] have "\<exists>m. ?Q m" by blast
  then have "\<exists>m. ?Q m \<and> (\<forall>j<m. \<not> ?Q j)" by (rule iffD1 [OF exists_least_iff])
  then obtain m where km: "k \<le> m"
    and free: "\<not> path_exists s (d @ [conflict_name pre nm m])"
    and least: "\<forall>j<m. \<not> (k \<le> j \<and> \<not> path_exists s (d @ [conflict_name pre nm j]))"
    by blast
  from least have all: "\<forall>j. k \<le> j \<and> j < m \<longrightarrow> path_exists s (d @ [conflict_name pre nm j])"
    by blast
  from free all km True
  have "rename_file_loop s d pre nm fn k = Some (conflict_name pre nm m)"
    by (rule loop_reaches)
  then show ?thesis ..
qed

lemma finite_names:
  "finite (dom (nodes s)) \<Longrightarrow> finite {n. path_exists s (d @ [n])}"
proof -
  assume fin: "finite (dom (nodes s))"
  have "(\<lambda>n. d @ [n]) ` {n. path_exists s (d @ [n])} \<subseteq> dom (nodes s)"
    by (auto simp: path_exists_def)
  then have "finite ((\<lambda>n. d @ [n]) ` {n. path_exists s (d @ [n])})"
    using fin by (rule finite_subset)
  moreover have "inj_on (\<lambda>n. d @ [n]) {n. path_exists s (d @ [n])}"
    by (rule inj_onI) simp
  ultimately show ?thesis by (rule finite_imageD)
qed

subsection \<open>mkdir\<close>

lemma os_mkdir_Inr:
  "os_mkdir s p = Inr s' \<Longrightarrow>
     s' = s\<lparr>nodes := (nodes s)(p \<mapsto> Dir (clock s))\<rparr> \<and> nodes s p = None \<and>
     p \<noteq> [] \<and> is_dir s (butlast p)"
  by (auto simp: os_mkdir_def is_dir_def split: if_splits option.splits node.splits)

lemma os_mkdir_not_found:
  "os_mkdir s p = Inl FileNotFoundError \<Longrightarrow>
     (if p = [] then nodes s p = None else nodes s (butlast p) = None)"
  by (auto simp: os_mkdir_def split: if_splits option.splits node.splits)

lemma mkdir_exist_ok_Inr:
  "mkdir_exist_ok s p = Inr s' \<Longrightarrow>
     (s' = s \<and> is_dir s p) \<or>
     (s' = s\<lparr>nodes := (nodes s)(p \<mapsto> Dir (clock s))\<rparr> \<and> nodes s p = None)"
  by (auto simp: mkdir_exist_ok_def dest!: os_mkdir_Inr
           split: sum.splits py_error.splits if_splits)

lemma grown_refl: "grown p s s"
  by (simp add: grown_def)

lemma grown_update:
  "nodes s p = None \<Longrightarrow> grown p s (s\<lparr>nodes := (nodes s)(p \<mapsto> Dir (clock s))\<rparr>)"
  by (simp add: grown_def)

lemma grown_trans:
  "grown (butlast p) s s1 \<Longrightarrow> grown p s1 s2 \<Longrightarrow> grown p s s2"
proof -
  assume a: "grown (butlast p) s s1" and b: "grown p s1 s2"
  have pre: "\<And>q. prefix q (butlast p) \<Longrightarrow> prefix q p"
    by (metis prefix_order.trans prefixeq_butlast)
  show ?thesis
    unfolding grown_def
  proof (intro conjI allI)
    show "clock s2 = clock s" using a b by (simp add: grown_def)
    fix q
    from a have a': "nodes s1 q = nodes s q \<or>
        (nodes s q = None \<and> prefix q (butlast p) \<and> nodes s1 q = Some (Dir (clock s)))"
      by (simp add: grown_def)
    from b have b': "nodes s2 q = nodes s1 q \<or>
        (nodes s1 q = None \<and> prefix q p \<and> nodes s2 q = Some (Dir (clock s1)))"
      by (simp add: grown_def)
    have c: "clock s1 = clock s" using a by (simp add: grown_def)
    from a' b' c pre [of q]
    show "nodes s2 q = nodes s q \<or>
        (nodes s q = None \<and> prefix q p \<and> nodes s2 q = Some (Dir (clock s)))"
      by auto
  qed
qed

lemma mkdir_exist_ok_grown: "mkdir_exist_ok s p = Inr s' \<Longrightarrow> grown p s s' \<and> is_dir s' p"
  by (auto dest!: mkdir_exist_ok_Inr simp: grown_refl grown_update is_dir_def)

lemma mkdir_parents_grown:
  "mkdir_parents s p = Inr s' \<Longrightarrow> grown p s s' \<and> is_dir s' p"
proof (induction s p arbitrary: s' rule: mkdir_parents.induct)
  case (1 s p)
  note unf = mkdir_parents.simps [of s p]
  show ?case
  proof (cases "os_mkdir s p")
    case (Inr t)
    with "1.prems" have "s' = t" by (simp add: unf)
    with Inr show ?thesis
      by (auto dest!: os_mkdir_Inr simp: grown_update is_dir_def)
  next
    case (Inl e)
    show ?thesis
    proof (cases "e = FileNotFoundError")
      case True
      with Inl "1.prems" have ne: "p \<noteq> []"
        by (auto simp: unf split: if_splits)
      from True Inl "1.prems" ne obtain s1 where
        s1: "mkdir_parents s (butlast p) = Inr s1" and s': "mkdir_exist_ok s1 p = Inr s'"
        by (auto simp: unf split: sum.splits)
      from "1.IH" [OF Inl True ne s1] have "grown (butlast p) s s1" by simp
      moreover from mkdir_exist_ok_grown [OF s'] have "grown p s1 s'" "is_dir s' p" by simp_all
      ultimately show ?thesis by (auto intro: grown_trans)
    next
      case False
      with Inl "1.prems" have "s' = s \<and> is_dir s p"
        by (cases e) (auto simp: unf split: if_splits)
      then show ?thesis by (simp add: grown_refl)
    qed
  qed
qed

lemma not_prefix_child: "\<not> prefix (p @ [n]) p"
  by (auto simp: prefix_def)


lemma mkdir_parents_keeps:
  "mkdir_parents s p = Inr s' \<Longrightarrow> path_exists s q \<Longrightarrow> nodes s' q = nodes s q"
proof -
  assume "mkdir_parents s p = Inr s'" and ex: "path_exists s q"
  then have "grown p s s'" by (simp add: mkdir_parents_grown)
  then have "nodes s' q = nodes s q \<or> nodes s q = None" by (auto simp: grown_def)
  with ex show ?thesis by (auto simp: path_exists_def)
qed

lemma mkdir_parents_elsewhere:
  "mkdir_parents s p = Inr s' \<Longrightarrow> \<not> prefix q p \<Longrightarrow> nodes s' q = nodes s q"
proof -
  assume "mkdir_parents s p = Inr s'" and np: "\<not> prefix q p"
  then have "grown p s s'" by (simp add: mkdir_parents_grown)
  then have "nodes s' q = nodes s q \<or> prefix q p" by (auto simp: grown_def)
  with np show ?thesis by simp
qed

lemma mkdir_parents_child:
  "mkdir_parents s p = Inr s' \<Longrightarrow> path_exists s' (p @ [n]) = path_exists s (p @ [n])"
  by (simp add: path_exists_def mkdir_parents_elsewhere not_prefix_child)

lemma grown_dom: "grown p s s' \<Longrightarrow> dom (nodes s') \<subseteq> dom (nodes s) \<union> set (prefixes p)"
proof
  fix q
  assume g: "grown p s s'" and q: "q \<in> dom (nodes s')"
  from g have "nodes s' q = nodes s q \<or> prefix q p" by (auto simp: grown_def)
  with q show "q \<in> dom (nodes s) \<union> set (prefixes p)" by (auto simp: in_set_prefixes)
qed

lemma mkdir_parents_finite:
  "mkdir_parents s p = Inr s' \<Longrightarrow> finite (dom (nodes s)) \<Longrightarrow> finite (dom (nodes s'))"
proof -
  assume "mkdir_parents s p = Inr s'" and fin: "finite (dom (nodes s))"
  then have "dom (nodes s') \<subseteq> dom (nodes s) \<union> set (prefixes p)"
    by (simp add: mkdir_parents_grown grown_dom)
  moreover have "finite (dom (nodes s) \<union> set (prefixes p))" using fin by simp
  ultimately show ?thesis by (rule finite_subset)
qed

subsection \<open>Transfers\<close>

lemma copy2_File:
  "nodes s src = Some (File c t) \<Longrightarrow>
     copy2 s src dst = Inr (s\<lparr>nodes := (nodes s)(dst \<mapsto> File c (clock s))\<rparr>)"
  by (simp add: copy2_def)

lemma move_File:
  "nodes s src = Some (File c t) \<Longrightarrow>
     move s src dst = Inr (s\<lparr>nodes := (nodes s)(src := None, dst \<mapsto> File c t)\<rparr>)"
  by (simp add: move_def)

lemma copy2_Inr:
  "copy2 s src dst = Inr s' \<Longrightarrow>
     \<exists>c t. nodes s src = Some (File c t) \<and>
            s' = s\<lparr>nodes := (nodes s)(dst \<mapsto> File c (clock s))\<rparr>"
  by (auto simp: copy2_def split: option.splits node.splits)

lemma move_Inr:
  "move s src dst = Inr s' \<Longrightarrow>
     (\<exists>c t. nodes s src = Some (File c t) \<and>
             s' = s\<lparr>nodes := (nodes s)(src := None, dst \<mapsto> File c t)\<rparr>) \<or>
     (\<exists>t. nodes s src = Some (Dir t) \<and> \<not> prefix src dst \<and>
           s' = s\<lparr>nodes := move_tree (nodes s) src dst\<rparr>)"
  by (auto simp: move_def split: option.splits node.splits if_splits)

lemma move_tree_child:
  "\<not> prefix src (d @ [n]) \<Longrightarrow> d @ [x] \<noteq> src \<Longrightarrow> x \<noteq> n \<Longrightarrow>
     move_tree m src (d @ [n]) (d @ [x]) = m (d @ [x])"
proof -
  assume a: "\<not> prefix src (d @ [n])" and b: "d @ [x] \<noteq> src" and c: "x \<noteq> n"
  have "\<not> prefix (d @ [n]) (d @ [x])" using c by (auto simp: prefix_def)
  moreover have "\<not> prefix src (d @ [x])"
  proof
    assume "prefix src (d @ [x])"
    then have "src = d @ [x] \<or> prefix src d" by (auto simp: prefix_snoc)
    with b have "prefix src d" by auto
    then have "prefix src (d @ [n])" by (simp add: prefix_prefix)
    with a show False by simp
  qed
  ultimately show ?thesis by (simp add: move_tree_def)
qed

lemma move_tree_dom:
  "dom (move_tree m src dst) \<subseteq> dom m \<union> (\<lambda>q. dst @ drop (length src) q) ` dom m"
proof
  fix q
  assume "q \<in> dom (move_tree m src dst)"
  then obtain v where v: "move_tree m src dst q = Some v" by auto
  show "q \<in> dom m \<union> (\<lambda>q. dst @ drop (length src) q) ` dom m"
  proof (cases "prefix dst q")
    case True
    with v have m: "m (src @ drop (length dst) q) = Some v" by (simp add: move_tree_def)
    from True have "q = dst @ drop (length dst) q" by (auto simp: prefix_def)
    then have "q = dst @ drop (length src) (src @ drop (length dst) q)" by simp
    moreover from m have "src @ drop (length dst) q \<in> dom m" by auto
    ultimately show ?thesis by blast
  next
    case False
    with v have "m q = Some v" by (auto simp: move_tree_def split: if_splits)
    then show ?thesis by auto
  qed
qed

lemma copy2_finite:
  "copy2 s src dst = Inr s' \<Longrightarrow> finite (dom (nodes s)) \<Longrightarrow> finite (dom (nodes s'))"
  by (auto dest!: copy2_Inr)

lemma move_finite:
  "move s src dst = Inr s' \<Longrightarrow> finite (dom (nodes s)) \<Longrightarrow> finite (dom (nodes s'))"
proof -
  assume mv: "move s src dst = Inr s'" and fin: "finite (dom (nodes s))"
  from move_Inr [OF mv] show ?thesis
  proof
    assume "\<exists>c t. nodes s src = Some (File c t) \<and>
             s' = s\<lparr>nodes := (nodes s)(src := None, dst \<mapsto> File c t)\<rparr>"
    with fin show ?thesis by auto
  next
    assume "\<exists>t. nodes s src = Some (Dir t) \<and> \<not> prefix src dst \<and>
           s' = s\<lparr>nodes := move_tree (nodes s) src dst\<rparr>"
    then have s': "nodes s' = move_tree (nodes s) src dst" by auto
    have "finite (dom (nodes s) \<union> (\<lambda>q. dst @ drop (length src) q) ` dom (nodes s))"
      using fin by simp
    then show ?thesis unfolding s' by (rule finite_subset [OF move_tree_dom])
  qed
qed

subsection \<open>rename_file\<close>

lemma rename_file_Success:
  assumes "rename_file s src dest cm = Some (s', Success n)"
  shows "\<exists>s1 t. mkdir_parents s dest = Inr s1 \<and>
           get_file_creation_time s1 src = Some t \<and>
           rename_file_loop s1 dest (format_datetime_prefix t) (path_name src)
             (format_datetime_prefix t @ path_name src) 1 = Some n \<and>
           (if cm then copy2 s1 src (dest @ [n]) else move s1 src (dest @ [n])) = Inr s'"
  using assms
  by (auto simp: rename_file_def Let_def split: sum.splits option.splits if_splits)

lemma rename_file_run:
  assumes "mkdir_parents s dest = Inr s1"
    and "get_file_creation_time s1 src = Some t"
    and "rename_file_loop s1 dest (format_datetime_prefix t) (path_name src)
             (format_datetime_prefix t @ path_name src) 1 = Some n"
    and "(if cm then copy2 s1 src (dest @ [n]) else move s1 src (dest @ [n])) = Inr s'"
  shows "rename_file s src dest cm = Some (s', Success n)"
  using assms by (auto simp: rename_file_def Let_def)

lemma zfill2_two_digits: "n < 100 \<Longrightarrow> zfill 2 n = two_digits n"
proof (cases "n < 10")
  case True
  then have "dec n = [digit_char n]" by (subst dec.simps) simp
  with True show ?thesis
    by (simp add: zfill_def two_digits_def digit_char_def numeral_2_eq_2)
next
  case False
  assume "n < 100"
  then have "n div 10 < 10" by simp
  then have "dec (n div 10) = [digit_char (n div 10)]" by (subst dec.simps) simp
  with False have "dec n = [digit_char (n div 10), digit_char (n mod 10)]"
    by (subst dec.simps) simp
  then show ?thesis by (simp add: zfill_def two_digits_def)
qed

lemma prefix_example: "format_datetime_prefix example_time = ''250808_143022_''"
  by (simp add: format_datetime_prefix_def example_time_def zfill_def dec.simps
        digit_char_def numeral_2_eq_2)

lemma valid_example_time: "valid_datetime example_time"
  by (simp add: valid_datetime_def example_time_def)

lemma mkdir_example:
  "mkdir_parents example_world [''out''] =
     Inr (example_world\<lparr>nodes := (nodes example_world)([''out''] \<mapsto> Dir example_time)\<rparr>)"
  by (simp add: mkdir_parents.simps os_mkdir_def example_world_def)

lemma mkdir_crowded: "mkdir_parents crowded_world [''out''] = Inr crowded_world"
  by (simp add: mkdir_parents.simps os_mkdir_def crowded_world_def is_dir_def)

text \<open>
  C3. Without a collision the destination name is the prefix followed by the original
  name, and the prefix has six two-digit fields with an underscore after the date and
  after the time.
\<close>

theorem rename_file_no_collision:
  assumes src: "nodes s source_path = Some (File c t)"
    and mk: "mkdir_parents s destination_dir = Inr s1"
    and free: "\<not> path_exists s
                 (destination_dir @ [format_datetime_prefix t @ path_name source_path])"
  shows "(\<exists>s'. rename_file s source_path destination_dir copy_mode =
                 Some (s', Success (format_datetime_prefix t @ path_name source_path))) \<and>
         (valid_datetime t \<longrightarrow>
            format_datetime_prefix t =
              two_digits (year t mod 100) @ two_digits (month t) @ two_digits (day t) @ ''_'' @
              two_digits (hour t) @ two_digits (minute t) @ two_digits (second t) @ ''_'')"
proof
  let ?n = "format_datetime_prefix t @ path_name source_path"
  from src have ex: "path_exists s source_path" by (simp add: path_exists_def)
  have src1: "nodes s1 source_path = Some (File c t)"
    using mkdir_parents_keeps [OF mk ex] src by simp
  then have ct: "get_file_creation_time s1 source_path = Some t"
    by (simp add: get_file_creation_time_def)
  from free have "\<not> path_exists s1 (destination_dir @ [?n])"
    by (simp add: mkdir_parents_child [OF mk])
  then have loop: "rename_file_loop s1 destination_dir (format_datetime_prefix t)
      (path_name source_path) ?n 1 = Some ?n"
    by (rule loop_stop)
  obtain s' where tr: "(if copy_mode then copy2 s1 source_path (destination_dir @ [?n])
            else move s1 source_path (destination_dir @ [?n])) = Inr s'"
    using src1 by (cases copy_mode) (simp_all add: copy2_File move_File)
  from rename_file_run [OF mk ct loop tr]
  show "\<exists>s'. rename_file s source_path destination_dir copy_mode = Some (s', Success ?n)" ..
next
  show "valid_datetime t \<longrightarrow>
          format_datetime_prefix t =
            two_digits (year t mod 100) @ two_digits (month t) @ two_digits (day t) @ ''_'' @
            two_digits (hour t) @ two_digits (minute t) @ two_digits (second t) @ ''_''"
    by (simp add: valid_datetime_def format_datetime_prefix_def zfill2_two_digits)
qed

theorem rename_file_no_collision_witness:
  "nodes example_world [''in'', ''report.pdf''] = Some (File [1, 2, 3] example_time) \<and>
   \<not> path_exists example_world [''out'', ''250808_143022_report.pdf''] \<and>
   valid_datetime example_time \<and>
   (\<exists>s'. rename_file example_world [''in'', ''report.pdf''] [''out''] False =
            Some (s', Success ''250808_143022_report.pdf''))"
proof -
  have src: "nodes example_world [''in'', ''report.pdf''] = Some (File [1, 2, 3] example_time)"
    by (simp add: example_world_def)
  have free: "\<not> path_exists example_world
      ([''out''] @ [format_datetime_prefix example_time @ path_name [''in'', ''report.pdf'']])"
    by (simp add: prefix_example path_name_def path_exists_def example_world_def)
  from rename_file_no_collision [OF src mkdir_example free, of False] src free
  show ?thesis
    by (simp add: prefix_example path_name_def valid_example_time)
qed

subsection \<open>Evaluating the examples\<close>

lemma crowded_finite: "finite (dom (nodes crowded_world))"
  by (simp add: crowded_world_def)

lemma crowded_source:
  "nodes crowded_world [''in'', ''report.pdf''] = Some (File [1, 2, 3] example_time)"
  by (simp add: crowded_world_def)

lemma crowded_loop:
  "rename_file_loop crowded_world [''out''] ''250808_143022_'' ''report.pdf''
     ''250808_143022_report.pdf'' 1 = Some ''250808_143022_report_002.pdf''"
  by (simp add: rename_file_loop.simps path_exists_def crowded_world_def conflict_name_def
        rsplit1_def zfill_def dec.simps digit_char_def numeral_3_eq_3)

lemma crowded_time:
  "get_file_creation_time crowded_world [''in'', ''report.pdf''] = Some example_time"
  by (simp add: get_file_creation_time_def crowded_source)

lemma crowded_loop':
  "rename_file_loop crowded_world [''out''] (format_datetime_prefix example_time)
     (path_name [''in'', ''report.pdf''])
     (format_datetime_prefix example_time @ path_name [''in'', ''report.pdf'']) 1 =
   Some ''250808_143022_report_002.pdf''"
  using crowded_loop by (simp add: prefix_example path_name_def)

lemma crowded_move:
  "rename_file crowded_world [''in'', ''report.pdf''] [''out''] False =
     Some (crowded_world\<lparr>nodes := (nodes crowded_world)
              ([''in'', ''report.pdf''] := None,
               [''out'', ''250808_143022_report_002.pdf''] \<mapsto> File [1, 2, 3] example_time)\<rparr>,
           Success ''250808_143022_report_002.pdf'')"
proof -
  have tr: "(if False
             then copy2 crowded_world [''in'', ''report.pdf'']
                    ([''out''] @ [''250808_143022_report_002.pdf''])
             else move crowded_world [''in'', ''report.pdf'']
                    ([''out''] @ [''250808_143022_report_002.pdf''])) =
            Inr (crowded_world\<lparr>nodes := (nodes crowded_world)
              ([''in'', ''report.pdf''] := None,
               [''out'', ''250808_143022_report_002.pdf''] \<mapsto> File [1, 2, 3] example_time)\<rparr>)"
    by (simp add: move_def crowded_source)
  from rename_file_run [OF mkdir_crowded crowded_time crowded_loop' tr] show ?thesis .
qed


section \<open>Claims about the placement\<close>

text \<open>
  C4. The loop that looks for a free name ends whenever the destination directory holds
  finitely many names: the names built from the counter are pairwise different, so one of
  them is free, and the loop returns a name that does not exist. The counter has no upper
  limit: whatever the first free counter \<open>m\<close> is, the loop goes on until it reaches it.
\<close>

theorem collision_loop_terminates:
  assumes "finite {n. path_exists s (d @ [n])}"
  shows "(\<exists>n. rename_file_loop s d pre nm fn k = Some n \<and> \<not> path_exists s (d @ [n])) \<and>
         inj (conflict_name pre nm) \<and>
         (\<forall>m. k \<le> m \<and> path_exists s (d @ [fn]) \<and>
              (\<forall>j. k \<le> j \<and> j < m \<longrightarrow> path_exists s (d @ [conflict_name pre nm j])) \<and>
              \<not> path_exists s (d @ [conflict_name pre nm m]) \<longrightarrow>
              rename_file_loop s d pre nm fn k = Some (conflict_name pre nm m))"
proof (intro conjI allI impI)
  from loop_terminates [OF assms] obtain n where
    n: "rename_file_loop s d pre nm fn k = Some n" by blast
  from loop_free [OF n] n
  show "\<exists>n. rename_file_loop s d pre nm fn k = Some n \<and> \<not> path_exists s (d @ [n])"
    by blast
next
  show "inj (conflict_name pre nm)"
    by (rule injI) (rule conflict_name_inj)
next
  fix m
  assume "k \<le> m \<and> path_exists s (d @ [fn]) \<and>
          (\<forall>j. k \<le> j \<and> j < m \<longrightarrow> path_exists s (d @ [conflict_name pre nm j])) \<and>
          \<not> path_exists s (d @ [conflict_name pre nm m])"
  then show "rename_file_loop s d pre nm fn k = Some (conflict_name pre nm m)"
    by (intro loop_reaches) simp_all
qed

theorem collision_loop_terminates_witness:
  "finite {n. path_exists crowded_world ([''out''] @ [n])} \<and>
   (\<exists>n. rename_file_loop crowded_world [''out''] ''250808_143022_'' ''report.pdf''
           ''250808_143022_report.pdf'' 1 = Some n \<and>
         \<not> path_exists crowded_world ([''out''] @ [n]))"
proof -
  have fin: "finite {n. path_exists crowded_world ([''out''] @ [n])}"
    using crowded_finite by (rule finite_names)
  from collision_loop_terminates [OF fin] fin show ?thesis by blast
qed

text \<open>
  C2. The name a successful call returns did not exist in the destination directory,
  neither before the call nor at the moment of the transfer (after the directory was
  made), and every entry the destination directory had keeps its node, the moved source
  itself apart.
\<close>

theorem no_overwrite:
  assumes run: "rename_file s source_path destination_dir copy_mode = Some (s', Success n)"
  shows "\<not> path_exists s (destination_dir @ [n]) \<and>
         (\<exists>s1. mkdir_parents s destination_dir = Inr s1 \<and>
               \<not> path_exists s1 (destination_dir @ [n])) \<and>
         (\<forall>x. path_exists s (destination_dir @ [x]) \<and>
              (copy_mode \<or> destination_dir @ [x] \<noteq> source_path) \<longrightarrow>
              nodes s' (destination_dir @ [x]) = nodes s (destination_dir @ [x]))"
proof -
  let ?d = destination_dir
  from rename_file_Success [OF run] obtain s1 t where
    mk: "mkdir_parents s ?d = Inr s1" and
    loop: "rename_file_loop s1 ?d (format_datetime_prefix t) (path_name source_path)
             (format_datetime_prefix t @ path_name source_path) 1 = Some n" and
    tr: "(if copy_mode then copy2 s1 source_path (?d @ [n])
          else move s1 source_path (?d @ [n])) = Inr s'"
    by blast
  from loop have free1: "\<not> path_exists s1 (?d @ [n])" by (rule loop_free)
  then have free: "\<not> path_exists s (?d @ [n])" by (simp add: mkdir_parents_child [OF mk])
  have frame: "nodes s' (?d @ [x]) = nodes s (?d @ [x])"
    if ex: "path_exists s (?d @ [x])" and other: "copy_mode \<or> ?d @ [x] \<noteq> source_path" for x
  proof -
    from ex free have xn: "x \<noteq> n" by auto
    have keep: "nodes s1 (?d @ [x]) = nodes s (?d @ [x])"
      using mk ex by (rule mkdir_parents_keeps)
    show ?thesis
    proof (cases copy_mode)
      case True
      with tr have "copy2 s1 source_path (?d @ [n]) = Inr s'" by simp
      from copy2_Inr [OF this] xn keep show ?thesis by auto
    next
      case False
      with tr have mv: "move s1 source_path (?d @ [n]) = Inr s'" by simp
      from False other have ne: "?d @ [x] \<noteq> source_path" by simp
      from move_Inr [OF mv] show ?thesis
      proof
        assume "\<exists>c t. nodes s1 source_path = Some (File c t) \<and>
                  s' = s1\<lparr>nodes := (nodes s1)(source_path := None, ?d @ [n] \<mapsto> File c t)\<rparr>"
        with xn ne keep show ?thesis by auto
      next
        assume "\<exists>t. nodes s1 source_path = Some (Dir t) \<and> \<not> prefix source_path (?d @ [n]) \<and>
                  s' = s1\<lparr>nodes := move_tree (nodes s1) source_path (?d @ [n])\<rparr>"
        then have np: "\<not> prefix source_path (?d @ [n])"
          and s': "nodes s' = move_tree (nodes s1) source_path (?d @ [n])" by auto
        from move_tree_child [OF np ne xn] keep show ?thesis by (simp add: s')
      qed
    qed
  qed
  from free free1 mk frame show ?thesis by blast
qed

theorem no_overwrite_witness:
  "\<exists>s'. rename_file crowded_world [''in'', ''report.pdf''] [''out''] False =
           Some (s', Success ''250808_143022_report_002.pdf'') \<and>
         \<not> path_exists crowded_world ([''out''] @ [''250808_143022_report_002.pdf'']) \<and>
         path_exists crowded_world ([''out''] @ [''250808_143022_report.pdf'']) \<and>
         nodes s' ([''out''] @ [''250808_143022_report.pdf'']) =
           nodes crowded_world ([''out''] @ [''250808_143022_report.pdf''])"
proof -
  let ?s' = "crowded_world\<lparr>nodes := (nodes crowded_world)
              ([''in'', ''report.pdf''] := None,
               [''out'', ''250808_143022_report_002.pdf''] \<mapsto> File [1, 2, 3] example_time)\<rparr>"
  have ex: "path_exists crowded_world ([''out''] @ [''250808_143022_report.pdf''])"
    by (simp add: path_exists_def crowded_world_def)
  have ne: "[''out''] @ [''250808_143022_report.pdf''] \<noteq> [''in'', ''report.pdf'']"
    by simp
  from no_overwrite [OF crowded_move] ex ne
  have "\<not> path_exists crowded_world ([''out''] @ [''250808_143022_report_002.pdf'']) \<and>
        nodes ?s' ([''out''] @ [''250808_143022_report.pdf'']) =
          nodes crowded_world ([''out''] @ [''250808_143022_report.pdf''])"
    by blast
  with crowded_move ex show ?thesis by blast
qed





subsection \<open>Comparing without case\<close>




lemma lower_TXT: "lower ''.TXT'' = ''.txt''"
  by code_simp

lemma lower_txt: "lower ''.txt'' = ''.txt''"
  by code_simp

lemma lower_pdf: "lower ''.pdf'' = ''.pdf''"
  by code_simp


subsection \<open>Totality of a call and of a batch\<close>

lemma rename_file_total:
  assumes fin: "finite (dom (nodes s))"
  shows "\<exists>s' r. rename_file s src dest cm = Some (s', r) \<and> finite (dom (nodes s'))"
proof (cases "mkdir_parents s dest")
  case (Inl e)
  with fin show ?thesis by (simp add: rename_file_def)
next
  case (Inr s1)
  then have fin1: "finite (dom (nodes s1))" using fin by (rule mkdir_parents_finite)
  show ?thesis
  proof (cases "get_file_creation_time s1 src")
    case None
    with Inr fin1 show ?thesis by (simp add: rename_file_def)
  next
    case (Some t)
    from fin1 have "finite {n. path_exists s1 (dest @ [n])}" by (rule finite_names)
    then obtain n where
      loop: "rename_file_loop s1 dest (format_datetime_prefix t) (path_name src)
               (format_datetime_prefix t @ path_name src) 1 = Some n"
      using loop_terminates by blast
    let ?tr = "if cm then copy2 s1 src (dest @ [n]) else move s1 src (dest @ [n])"
    show ?thesis
    proof (cases ?tr)
      case (Inl e)
      with Inr Some loop fin1 show ?thesis by (simp add: rename_file_def Let_def)
    next
      case tr: (Inr s2)
      then have "finite (dom (nodes s2))"
        using fin1 by (cases cm) (auto intro: copy2_finite move_finite)
      moreover from Inr Some loop tr have "rename_file s src dest cm = Some (s2, Success n)"
        by (intro rename_file_run) simp_all
      ultimately show ?thesis by blast
    qed
  qed
qed

lemma rename_each_total:
  "finite (dom (nodes s)) \<Longrightarrow>
     \<exists>s' rs. rename_each s files dest cm = Some (s', rs) \<and> length rs = length files"
proof (induction files arbitrary: s)
  case Nil
  then show ?case by simp
next
  case (Cons f files)
  from rename_file_total [OF Cons.prems, of f dest cm] obtain s1 r where
    r: "rename_file s f dest cm = Some (s1, r)" and fin1: "finite (dom (nodes s1))" by blast
  from Cons.IH [OF fin1] obtain s2 rs where
    rs: "rename_each s1 files dest cm = Some (s2, rs)" and len: "length rs = length files"
    by blast
  from r rs len show ?case by simp
qed

lemma is_success_simps [simp]:
  "is_success (Success n)" "\<not> is_success (Failure e)"
  by (simp_all add: is_success_def)

lemma process_files_rename_each:
  "process_files s files dest cm a b =
     (case rename_each s files dest cm of
        None \<Rightarrow> None
      | Some (s', rs) \<Rightarrow>
          Some (s', a + length (filter is_success rs),
                b + length (filter (\<lambda>r. \<not> is_success r) rs)))"
proof (induction files arbitrary: s a b)
  case Nil
  then show ?case by simp
next
  case (Cons f files)
  show ?case
  proof (cases "rename_file s f dest cm")
    case None
    then show ?thesis by simp
  next
    case (Some p)
    obtain s1 r where p: "p = (s1, r)" by (cases p)
    show ?thesis
    proof (cases r)
      case (Success n)
      with Some p show ?thesis
        by (simp add: Cons.IH split: option.splits)
    next
      case (Failure e)
      with Some p show ?thesis
        by (simp add: Cons.IH split: option.splits)
    qed
  qed
qed

lemma count_outcomes:
  "length (filter is_success rs) + length (filter (\<lambda>r. \<not> is_success r) rs) = length rs"
  by (induction rs) simp_all

section \<open>Claims about the batch\<close>



text \<open>
  C10. An empty list as the filter is no filter: \<open>process_directory\<close> does what it does
  with no filter at all, and every regular file of the listing is taken.
\<close>

theorem empty_filter_is_no_filter:
  "select_files s entries input_dir (Some []) =
     filter (is_file s) (map (\<lambda>n. input_dir @ [n]) entries) \<and>
   select_files s entries input_dir (Some []) = select_files s entries input_dir None \<and>
   process_directory s entries input_dir output_dir copy_mode (Some []) =
     process_directory s entries input_dir output_dir copy_mode None"
  by (simp add: select_files_def process_directory_def)

theorem empty_filter_is_no_filter_witness:
  "select_files listing_world listing_entries [''in''] (Some []) =
     [[''in'', ''a.txt''], [''in'', ''b.pdf''], [''in'', ''c.TXT'']]"
proof -
  have f: "is_file listing_world [''in'', ''a.txt'']" "is_file listing_world [''in'', ''b.pdf'']"
    "is_file listing_world [''in'', ''c.TXT'']" "\<not> is_file listing_world [''in'', ''sub.txt'']"
    by (simp_all add: is_file_def listing_world_def)
  from empty_filter_is_no_filter [of listing_world listing_entries "[''in'']"]
  show ?thesis by (simp add: listing_entries_def f)
qed

text \<open>
  C8. A batch over an existing directory returns; every file selected gets exactly one
  outcome, a failure does not stop the files after it, and the two counts of the tally add
  up to the number of files selected.
\<close>

theorem batch_tally:
  assumes fin: "finite (dom (nodes s))" and dir: "is_dir s input_dir"
  shows "\<exists>s' rs.
           rename_each s (select_files s entries input_dir exts) output_dir copy_mode =
             Some (s', rs) \<and>
           length rs = length (select_files s entries input_dir exts) \<and>
           process_directory s entries input_dir output_dir copy_mode exts =
             Some (Inr (s', if select_files s entries input_dir exts = [] then NoFiles
                            else Processed (length (filter is_success rs))
                                   (length (filter (\<lambda>r. \<not> is_success r) rs)))) \<and>
           length (filter is_success rs) + length (filter (\<lambda>r. \<not> is_success r) rs) =
             length (select_files s entries input_dir exts)"
proof -
  let ?files = "select_files s entries input_dir exts"
  from rename_each_total [OF fin, of ?files output_dir copy_mode] obtain s' rs where
    rs: "rename_each s ?files output_dir copy_mode = Some (s', rs)"
    and len: "length rs = length ?files" by blast
  from dir have ex: "path_exists s input_dir"
    by (auto simp: is_dir_def path_exists_def split: option.splits)
  have "process_directory s entries input_dir output_dir copy_mode exts =
          Some (Inr (s', if ?files = [] then NoFiles
                         else Processed (length (filter is_success rs))
                                (length (filter (\<lambda>r. \<not> is_success r) rs))))"
  proof (cases "?files = []")
    case True
    with rs ex dir show ?thesis by (simp add: process_directory_def Let_def)
  next
    case False
    with rs ex dir show ?thesis
      by (simp add: process_directory_def Let_def process_files_rename_each)
  qed
  with rs len count_outcomes [of rs] show ?thesis by auto
qed


lemma select_listing:
  "select_files listing_world listing_entries [''in''] (Some [''.txt'']) =
     [[''in'', ''a.txt''], [''in'', ''c.TXT'']]"
  by (simp add: select_files_def listing_entries_def is_file_def listing_world_def
        path_suffix_def path_name_def lower_txt lower_pdf lower_TXT)

theorem batch_tally_witness:
  "finite (dom (nodes listing_world)) \<and> is_dir listing_world [''in''] \<and>
   process_directory listing_world listing_entries [''in''] [''in'', ''a.txt''] False
     (Some [''.txt'']) = Some (Inr (listing_world, Processed 0 2))"
proof -
  have fin: "finite (dom (nodes listing_world))" by (simp add: listing_world_def)
  have dir: "is_dir listing_world [''in'']" by (simp add: is_dir_def listing_world_def)
  have mk: "mkdir_parents listing_world [''in'', ''a.txt''] = Inl FileExistsError"
    by (simp add: mkdir_parents.simps os_mkdir_def is_dir_def listing_world_def)
  have fail: "rename_file listing_world f [''in'', ''a.txt''] False =
      Some (listing_world, Failure (Exception FileExistsError))" for f
    by (simp add: rename_file_def mk)
  have each: "rename_each listing_world [[''in'', ''a.txt''], [''in'', ''c.TXT'']]
      [''in'', ''a.txt''] False =
      Some (listing_world, [Failure (Exception FileExistsError),
                            Failure (Exception FileExistsError)])"
    by (simp add: fail)
  note tally = batch_tally [OF fin dir, of listing_entries "Some [''.txt'']"
      "[''in'', ''a.txt'']" False, unfolded select_listing each]
  from tally fin dir show ?thesis by auto
qed

subsection \<open>Files with the same name and creation time\<close>

lemma length_conflict_name:
  "length (conflict_name pre nm k) = length pre + length nm + 1 + length (zfill 3 k)"
proof (cases "rfind nm (CHR ''.'')")
  case None
  then show ?thesis by (simp add: conflict_name_def rsplit1_def)
next
  case (Some i)
  then have "i < length nm" by (simp add: rfind_Some)
  with Some show ?thesis by (simp add: conflict_name_dot)
qed

lemma conflict_name_not_plain: "conflict_name pre nm k \<noteq> pre @ nm"
proof
  assume "conflict_name pre nm k = pre @ nm"
  then have "length (conflict_name pre nm k) = length (pre @ nm)" by simp
  then show False by (simp add: length_conflict_name)
qed

lemma nth_name_inj: "nth_name pre nm i = nth_name pre nm j \<Longrightarrow> i = j"
  using conflict_name_not_plain [of pre nm i] conflict_name_not_plain [of pre nm j]
  by (auto simp: nth_name_def dest: conflict_name_inj split: if_splits)

lemma nth_name_longer: "pre \<noteq> [] \<Longrightarrow> length nm < length (nth_name pre nm i)"
  by (simp add: nth_name_def length_conflict_name)

lemma path_name_child: "path_name (d @ [x]) = x"
  by (simp add: path_name_def)

lemma child_not_source:
  assumes "pre \<noteq> []" and "path_name src = nm"
  shows "d @ [nth_name pre nm i] \<noteq> src"
proof
  assume "d @ [nth_name pre nm i] = src"
  then have "path_name src = nth_name pre nm i" by (auto simp: path_name_child)
  with assms(2) have "length nm = length (nth_name pre nm i)" by simp
  with nth_name_longer [OF assms(1), of nm i] show False by simp
qed

lemma mkdir_parents_settled:
  assumes "mkdir_parents s p = Inr s'"
  shows "is_dir s' p \<and> (p = [] \<or> path_exists s' (butlast p))"
proof -
  note unf = mkdir_parents.simps [of s p]
  from assms have dir: "is_dir s' p" by (simp add: mkdir_parents_grown)
  have "p = [] \<or> path_exists s' (butlast p)"
  proof (cases "os_mkdir s p")
    case (Inr u)
    with assms have "s' = u" by (simp add: unf)
    with Inr show ?thesis
      by (auto dest!: os_mkdir_Inr simp: is_dir_def path_exists_def
               split: option.splits if_splits)
  next
    case (Inl e)
    show ?thesis
    proof (cases "e = FileNotFoundError")
      case True
      with Inl assms have ne: "p \<noteq> []" by (auto simp: unf split: if_splits)
      from True Inl assms ne obtain s1 where
        s1: "mkdir_parents s (butlast p) = Inr s1" and s': "mkdir_exist_ok s1 p = Inr s'"
        by (auto simp: unf split: sum.splits)
      from s1 have "is_dir s1 (butlast p)" by (simp add: mkdir_parents_grown)
      then have ex1: "path_exists s1 (butlast p)"
        by (auto simp: is_dir_def path_exists_def split: option.splits)
      from ne have "butlast p \<noteq> p" by (metis append_butlast_last_id self_append_conv snoc_eq_iff_butlast not_Cons_self2)
      with mkdir_exist_ok_Inr [OF s'] ex1 show ?thesis
        by (auto simp: path_exists_def)
    next
      case False
      with Inl assms have s: "s' = s" by (cases e) (auto simp: unf split: if_splits)
      from Inl False have "p = [] \<or> path_exists s (butlast p)"
        by (auto simp: os_mkdir_def path_exists_def split: if_splits option.splits node.splits)
      with s show ?thesis by simp
    qed
  qed
  with dir show ?thesis by simp
qed

lemma mkdir_parents_noop:
  assumes "is_dir s p" and "p = [] \<or> path_exists s (butlast p)"
  shows "mkdir_parents s p = Inr s"
  using assms
  by (auto simp: mkdir_parents.simps [of s p] os_mkdir_def is_dir_def path_exists_def
           split: option.splits node.splits)

lemma place_step:
  assumes mk: "mkdir_parents s dest = Inr s1"
    and src: "nodes s src = Some (File c t)"
    and nm: "path_name src = nm"
    and pre: "pre = format_datetime_prefix t"
    and occ: "\<forall>j<i. path_exists s (dest @ [nth_name pre nm j])"
    and free: "\<not> path_exists s (dest @ [nth_name pre nm i])"
  shows "rename_file s src dest cm =
           Some (if cm
                 then s1\<lparr>nodes := (nodes s1)(dest @ [nth_name pre nm i] \<mapsto> File c (clock s1))\<rparr>
                 else s1\<lparr>nodes := (nodes s1)(src := None,
                                   dest @ [nth_name pre nm i] \<mapsto> File c t)\<rparr>,
                 Success (nth_name pre nm i))"
proof -
  let ?n = "nth_name pre nm i"
  from src have ex: "path_exists s src" by (simp add: path_exists_def)
  have src1: "nodes s1 src = Some (File c t)"
    using mkdir_parents_keeps [OF mk ex] src by simp
  then have ct: "get_file_creation_time s1 src = Some t"
    by (simp add: get_file_creation_time_def)
  from occ have occ1: "\<forall>j<i. path_exists s1 (dest @ [nth_name pre nm j])"
    by (simp add: mkdir_parents_child [OF mk])
  from free have free1: "\<not> path_exists s1 (dest @ [?n])"
    by (simp add: mkdir_parents_child [OF mk])
  have loop: "rename_file_loop s1 dest pre nm (pre @ nm) 1 = Some ?n"
  proof (cases "i = 0")
    case True
    with free1 have "\<not> path_exists s1 (dest @ [pre @ nm])" by (simp add: nth_name_def)
    then have "rename_file_loop s1 dest pre nm (pre @ nm) 1 = Some (pre @ nm)"
      by (rule loop_stop)
    with True show ?thesis by (simp add: nth_name_def)
  next
    case False
    then have n: "?n = conflict_name pre nm i" by (simp add: nth_name_def)
    from False occ1 have first: "path_exists s1 (dest @ [pre @ nm])"
      by (auto simp: nth_name_def)
    have all: "\<forall>j. 1 \<le> j \<and> j < i \<longrightarrow> path_exists s1 (dest @ [conflict_name pre nm j])"
    proof (intro allI impI)
      fix j
      assume j: "1 \<le> j \<and> j < i"
      with occ1 have "path_exists s1 (dest @ [nth_name pre nm j])" by blast
      with j show "path_exists s1 (dest @ [conflict_name pre nm j])"
        by (simp add: nth_name_def)
    qed
    from free1 have fr: "\<not> path_exists s1 (dest @ [conflict_name pre nm i])"
      by (simp add: n)
    from False have le: "1 \<le> i" by simp
    from fr all le first
    have "rename_file_loop s1 dest pre nm (pre @ nm) 1 = Some (conflict_name pre nm i)"
      by (rule loop_reaches)
    then show ?thesis by (simp add: n)
  qed
  let ?s2 = "if cm
             then s1\<lparr>nodes := (nodes s1)(dest @ [?n] \<mapsto> File c (clock s1))\<rparr>
             else s1\<lparr>nodes := (nodes s1)(src := None, dest @ [?n] \<mapsto> File c t)\<rparr>"
  have tr: "(if cm then copy2 s1 src (dest @ [?n]) else move s1 src (dest @ [?n])) = Inr ?s2"
    by (simp add: copy2_File [OF src1] move_File [OF src1])
  have loop': "rename_file_loop s1 dest (format_datetime_prefix t) (path_name src)
      (format_datetime_prefix t @ path_name src) 1 = Some ?n"
    using loop by (simp add: nm pre)
  from rename_file_run [OF mk ct loop' tr] show ?thesis .
qed

lemma place_all:
  assumes "mkdir_parents s dest = Inr s1"
    and "\<forall>src\<in>set srcs. (\<exists>c. nodes s src = Some (File c t)) \<and> path_name src = nm \<and>
                           \<not> prefix src dest"
    and "distinct srcs"
    and "pre = format_datetime_prefix t"
    and "\<forall>j<i. path_exists s (dest @ [nth_name pre nm j])"
    and "\<forall>j. i \<le> j \<and> j < i + length srcs \<longrightarrow> \<not> path_exists s (dest @ [nth_name pre nm j])"
  shows "\<exists>s'. rename_each s srcs dest cm =
                Some (s', map (\<lambda>j. Success (nth_name pre nm j)) [i..<i + length srcs])"
  using assms
proof (induction srcs arbitrary: s s1 i)
  case Nil
  then show ?case by simp
next
  case (Cons src rest)
  note mk = Cons.prems(1) and pre = Cons.prems(4)
  from Cons.prems(2) obtain c where
    src: "nodes s src = Some (File c t)" and nm: "path_name src = nm"
    and np: "\<not> prefix src dest" by auto
  let ?n = "nth_name pre nm i"
  let ?dst = "dest @ [?n]"
  let ?s2 = "if cm
             then s1\<lparr>nodes := (nodes s1)(?dst \<mapsto> File c (clock s1))\<rparr>
             else s1\<lparr>nodes := (nodes s1)(src := None, ?dst \<mapsto> File c t)\<rparr>"
  from Cons.prems(6) have free: "\<not> path_exists s ?dst" by simp
  from place_step [OF mk src nm pre Cons.prems(5) free]
  have step: "rename_file s src dest cm = Some (?s2, Success ?n)" .
  have pne: "pre \<noteq> []" by (simp add: pre format_datetime_prefix_not_Nil)
  have same: "nodes ?s2 q = nodes s1 q" if "q \<noteq> src" "q \<noteq> ?dst" for q
    using that by simp
  have grow: "path_exists ?s2 q" if "path_exists s1 q" "q \<noteq> src" for q
    using that by (auto simp: path_exists_def)
  have dst_ex: "path_exists ?s2 ?dst" by (simp add: path_exists_def)
  have shrink: "\<not> path_exists ?s2 q" if "\<not> path_exists s1 q" "q \<noteq> ?dst" for q
    using that by (auto simp: path_exists_def)
  from mkdir_parents_settled [OF mk]
  have dir1: "is_dir s1 dest" and par1: "dest = [] \<or> path_exists s1 (butlast dest)" by simp_all
  from src have ex: "path_exists s src" by (simp add: path_exists_def)
  have src1: "nodes s1 src = Some (File c t)"
    using mkdir_parents_keeps [OF mk ex] src by simp
  from dir1 src1 have dne: "dest \<noteq> src" by (auto simp: is_dir_def)
  have dir2: "is_dir ?s2 dest"
    using dir1 dne by (simp add: is_dir_def)
  have par2: "dest = [] \<or> path_exists ?s2 (butlast dest)"
  proof (cases "dest = []")
    case True
    then show ?thesis by simp
  next
    case False
    with par1 have p: "path_exists s1 (butlast dest)" by simp
    have "butlast dest \<noteq> src"
    proof
      assume "butlast dest = src"
      then have "prefix src dest" by (metis prefixeq_butlast)
      with np show False by simp
    qed
    with p show ?thesis by (simp add: grow)
  qed
  from dir2 par2 have mk2: "mkdir_parents ?s2 dest = Inr ?s2" by (rule mkdir_parents_noop)
  have rest: "\<forall>r\<in>set rest. (\<exists>c. nodes ?s2 r = Some (File c t)) \<and> path_name r = nm \<and>
                 \<not> prefix r dest"
  proof
    fix r
    assume r: "r \<in> set rest"
    with Cons.prems(2) obtain c' where
      rs: "nodes s r = Some (File c' t)" and rn: "path_name r = nm" and rp: "\<not> prefix r dest"
      by auto
    from r Cons.prems(3) have r1: "r \<noteq> src" by auto
    from child_not_source [OF pne rn, of dest i] have r2: "r \<noteq> ?dst" by auto
    from rs have "path_exists s r" by (simp add: path_exists_def)
    from mkdir_parents_keeps [OF mk this] rs have "nodes s1 r = Some (File c' t)" by simp
    with same [OF r1 r2] have "nodes ?s2 r = Some (File c' t)" by simp
    with rn rp show "(\<exists>c. nodes ?s2 r = Some (File c t)) \<and> path_name r = nm \<and> \<not> prefix r dest"
      by blast
  qed
  from Cons.prems(3) have dist: "distinct rest" by simp
  have occ2: "\<forall>j<Suc i. path_exists ?s2 (dest @ [nth_name pre nm j])"
  proof (intro allI impI)
    fix j
    assume j: "j < Suc i"
    show "path_exists ?s2 (dest @ [nth_name pre nm j])"
    proof (cases "j = i")
      case True
      with dst_ex show ?thesis by simp
    next
      case False
      with j Cons.prems(5) have "path_exists s (dest @ [nth_name pre nm j])" by simp
      then have "path_exists s1 (dest @ [nth_name pre nm j])"
        by (simp add: mkdir_parents_child [OF mk])
      moreover have "dest @ [nth_name pre nm j] \<noteq> src"
        by (rule child_not_source [OF pne nm])
      ultimately show ?thesis by (rule grow)
    qed
  qed
  have free2: "\<forall>j. Suc i \<le> j \<and> j < Suc i + length rest \<longrightarrow>
                 \<not> path_exists ?s2 (dest @ [nth_name pre nm j])"
  proof (intro allI impI)
    fix j
    assume j: "Suc i \<le> j \<and> j < Suc i + length rest"
    with Cons.prems(6) have "\<not> path_exists s (dest @ [nth_name pre nm j])" by simp
    then have "\<not> path_exists s1 (dest @ [nth_name pre nm j])"
      by (simp add: mkdir_parents_child [OF mk])
    moreover have "dest @ [nth_name pre nm j] \<noteq> ?dst"
    proof
      assume "dest @ [nth_name pre nm j] = ?dst"
      then have "nth_name pre nm j = nth_name pre nm i" by simp
      then have "j = i" by (rule nth_name_inj)
      with j show False by simp
    qed
    ultimately show "\<not> path_exists ?s2 (dest @ [nth_name pre nm j])" by (rule shrink)
  qed
  from Cons.IH [OF mk2 rest dist pre occ2 free2] obtain s' where
    s': "rename_each ?s2 rest dest cm =
           Some (s', map (\<lambda>j. Success (nth_name pre nm j)) [Suc i..<Suc i + length rest])"
    by blast
  have "[i..<i + length (src # rest)] = i # [Suc i..<Suc i + length rest]"
    by (subst upt_rec) simp
  with step s' show ?case by simp
qed

lemma rfind_absent: "c \<notin> set s \<Longrightarrow> rfind s c = None"
  by (simp add: rfind_None)

lemma rfind_last: "c \<notin> set ext \<Longrightarrow> rfind (base @ c # ext) c = Some (length base)"
  by (induction base) (simp_all add: rfind_absent)

lemma conflict_name_ext:
  "CHR ''.'' \<notin> set ext \<Longrightarrow>
     conflict_name pre (base @ ''.'' @ ext) k = pre @ base @ ''_'' @ zfill 3 k @ ''.'' @ ext"
proof -
  assume "CHR ''.'' \<notin> set ext"
  then have "rfind (base @ CHR ''.'' # ext) (CHR ''.'') = Some (length base)"
    by (rule rfind_last)
  then have "conflict_name pre (base @ CHR ''.'' # ext) k =
      pre @ take (length base) (base @ CHR ''.'' # ext) @ ''_'' @ zfill 3 k @ ''.'' @
        drop (Suc (length base)) (base @ CHR ''.'' # ext)"
    by (rule conflict_name_dot)
  then show ?thesis by simp
qed

lemma zfill3_one: "zfill 3 1 = ''001''"
  by (simp add: zfill_def dec.simps digit_char_def numeral_3_eq_3)

lemma names_in_turn:
  "0 < n \<Longrightarrow>
     map (nth_name pre nm) [0..<n] = (pre @ nm) # map (conflict_name pre nm) [1..<n]"
proof -
  assume "0 < n"
  then have "[0..<n] = 0 # [1..<n]" by (simp add: upt_conv_Cons)
  moreover have "map (nth_name pre nm) [1..<n] = map (conflict_name pre nm) [1..<n]"
    by (rule map_cong) (simp_all add: nth_name_def)
  ultimately show ?thesis by (simp add: nth_name_def)
qed

lemma names_distinct: "distinct (map (nth_name pre nm) [0..<n])"
  by (auto simp: distinct_map intro!: inj_onI dest: nth_name_inj)

section \<open>Claims about files with the same name\<close>

text \<open>
  C1. When the name is taken, the name tried next has the counter, written in decimal with
  three digits and zeros on the left (in full from 1000 on), starting at 1, put before the
  dot of the extension, or at the end of a name that has no dot. Files with one original
  name and one creation time, placed one after the other into a destination directory that
  holds none of these names, get pairwise different names: the first the plain one, the
  next ones the counters 1, 2, and so on in the order of the calls.
\<close>

theorem same_name_files:
  assumes mk: "mkdir_parents s destination_dir = Inr s1"
    and srcs: "\<forall>src\<in>set srcs. (\<exists>c. nodes s src = Some (File c t)) \<and> path_name src = nm \<and>
                               \<not> prefix src destination_dir"
    and dist: "distinct srcs"
    and ne: "srcs \<noteq> []"
    and free: "\<not> path_exists s (destination_dir @ [format_datetime_prefix t @ nm])"
    and free': "\<forall>j. 1 \<le> j \<and> j < length srcs \<longrightarrow>
                  \<not> path_exists s
                      (destination_dir @ [conflict_name (format_datetime_prefix t) nm j])"
  shows "(\<exists>s'. rename_each s srcs destination_dir copy_mode =
                 Some (s', map Success
                   ((format_datetime_prefix t @ nm) #
                    map (conflict_name (format_datetime_prefix t) nm) [1..<length srcs]))) \<and>
         distinct ((format_datetime_prefix t @ nm) #
                   map (conflict_name (format_datetime_prefix t) nm) [1..<length srcs]) \<and>
         (\<forall>pre base ext k. CHR ''.'' \<notin> set ext \<longrightarrow>
            conflict_name pre (base @ ''.'' @ ext) k =
              pre @ base @ ''_'' @ zfill 3 k @ ''.'' @ ext) \<and>
         (\<forall>pre name k. CHR ''.'' \<notin> set name \<longrightarrow>
            conflict_name pre name k = pre @ name @ ''_'' @ zfill 3 k) \<and>
         (\<forall>k<1000. length (zfill 3 k) = 3) \<and> (\<forall>k. decval (zfill 3 k) = k) \<and>
         zfill 3 1 = ''001''"
proof -
  let ?pre = "format_datetime_prefix t"
  let ?names = "(?pre @ nm) # map (conflict_name ?pre nm) [1..<length srcs]"
  from ne have pos: "0 < length srcs" by simp
  have occ: "\<forall>j<0. path_exists s (destination_dir @ [nth_name ?pre nm j])" by simp
  have fr: "\<forall>j. 0 \<le> j \<and> j < 0 + length srcs \<longrightarrow>
              \<not> path_exists s (destination_dir @ [nth_name ?pre nm j])"
  proof (intro allI impI)
    fix j
    assume j: "0 \<le> j \<and> j < 0 + length srcs"
    show "\<not> path_exists s (destination_dir @ [nth_name ?pre nm j])"
    proof (cases "j = 0")
      case True
      with free show ?thesis by (simp add: nth_name_def)
    next
      case False
      with j free' show ?thesis by (simp add: nth_name_def)
    qed
  qed
  from place_all [OF mk srcs dist refl occ fr, of copy_mode] obtain s' where
    "rename_each s srcs destination_dir copy_mode =
       Some (s', map (\<lambda>j. Success (nth_name ?pre nm j)) [0..<0 + length srcs])"
    by blast
  moreover have "map (\<lambda>j. Success (nth_name ?pre nm j)) [0..<0 + length srcs] =
      map Success (map (nth_name ?pre nm) [0..<length srcs])"
    by simp
  ultimately have run: "rename_each s srcs destination_dir copy_mode =
      Some (s', map Success ?names)"
    by (simp only: names_in_turn [OF pos])
  have "distinct (map (nth_name ?pre nm) [0..<length srcs])" by (rule names_distinct)
  then have d: "distinct ?names" by (simp only: names_in_turn [OF pos])
  from run have r: "\<exists>s'. rename_each s srcs destination_dir copy_mode =
      Some (s', map Success ?names)" by blast
  have a: "\<forall>pre base ext k. CHR ''.'' \<notin> set ext \<longrightarrow>
      conflict_name pre (base @ ''.'' @ ext) k =
        pre @ base @ ''_'' @ zfill 3 k @ ''.'' @ ext"
    by (intro allI impI) (rule conflict_name_ext)
  have b: "\<forall>pre name k. CHR ''.'' \<notin> set name \<longrightarrow>
      conflict_name pre name k = pre @ name @ ''_'' @ zfill 3 k"
    by (intro allI impI) (rule conflict_name_no_dot)
  have c: "\<forall>k<1000. length (zfill 3 k) = 3"
    by (intro allI impI) (rule length_zfill3)
  have e: "\<forall>k. decval (zfill 3 k) = k"
    by (simp add: decval_zfill)
  from r d a b c e zfill3_one show ?thesis by (intro conjI)
qed

lemma mkdir_twins:
  "mkdir_parents twins_world [''out''] =
     Inr (twins_world\<lparr>nodes := (nodes twins_world)([''out''] \<mapsto> Dir example_time)\<rparr>)"
  by (simp add: mkdir_parents.simps os_mkdir_def twins_world_def)

lemma names_example:
  "map (conflict_name ''250808_143022_'' ''report.pdf'') [1..<3] =
     [''250808_143022_report_001.pdf'', ''250808_143022_report_002.pdf'']"
  by (simp add: upt_rec conflict_name_def rsplit1_def zfill_def dec.simps digit_char_def
        numeral_3_eq_3)

theorem same_name_files_witness:
  "distinct [[''a'', ''report.pdf''], [''b'', ''report.pdf''], [''c'', ''report.pdf'']] \<and>
   (\<exists>s'. rename_each twins_world
            [[''a'', ''report.pdf''], [''b'', ''report.pdf''], [''c'', ''report.pdf'']]
            [''out''] False =
          Some (s', [Success ''250808_143022_report.pdf'',
                     Success ''250808_143022_report_001.pdf'',
                     Success ''250808_143022_report_002.pdf'']))"
proof -
  let ?srcs = "[[''a'', ''report.pdf''], [''b'', ''report.pdf''], [''c'', ''report.pdf'']]"
  have srcs: "\<forall>src\<in>set ?srcs. (\<exists>c. nodes twins_world src = Some (File c example_time)) \<and>
      path_name src = ''report.pdf'' \<and> \<not> prefix src [''out'']"
    by (simp add: twins_world_def path_name_def)
  have dist: "distinct ?srcs" by simp
  have ne: "?srcs \<noteq> []" by simp
  have none: "\<not> path_exists twins_world (''out'' # x)" for x
    by (simp add: path_exists_def twins_world_def)
  have free: "\<not> path_exists twins_world
      ([''out''] @ [format_datetime_prefix example_time @ ''report.pdf''])"
    by (simp add: none)
  have free': "\<forall>j. 1 \<le> j \<and> j < length ?srcs \<longrightarrow>
      \<not> path_exists twins_world
          ([''out''] @ [conflict_name (format_datetime_prefix example_time) ''report.pdf'' j])"
    by (simp add: none)
  have len: "length ?srcs = 3" by simp
  from same_name_files [OF mkdir_twins srcs dist ne free free', of False]
  have "\<exists>s'. rename_each twins_world ?srcs [''out''] False =
           Some (s', map Success
                   ((format_datetime_prefix example_time @ ''report.pdf'') #
                    map (conflict_name (format_datetime_prefix example_time) ''report.pdf'')
                      [1..<length ?srcs]))"
    by blast
  then have "\<exists>s'. rename_each twins_world ?srcs [''out''] False =
           Some (s', map Success
                   (''250808_143022_report.pdf'' #
                    [''250808_143022_report_001.pdf'', ''250808_143022_report_002.pdf'']))"
    by (simp only: len prefix_example names_example append.simps)
  with dist show ?thesis by simp
qed

section \<open>Claims about a single file that is missing\<close>


lemma emit_File:
  "nodes s h = Some (File c t) \<Longrightarrow>
     emit fmt (s, h) l m = (s\<lparr>nodes := (nodes s)(h \<mapsto> File (c @ fmt l m) t)\<rparr>, h)"
  by simp





end
